theory Spec2Isabelle
  imports Complex_Main "HOL-Library.Log_Nat" "HOL-Library.Sublist"
begin

section \<open>JavaScript numbers\<close>

text \<open>
  Numbers are IEEE 754 doubles. A finite double is its rational value (both zeros are
  \<open>0\<close>); the other numbers are the two infinities and \<open>NaN\<close>. \<open>fl\<close> rounds a positive
  rational of the normal range to the nearest double, ties to the even significand of 53
  bits. \<open>number_of_int\<close> is the Number value of a mathematical integer: the integer
  rounded by \<open>fl\<close>, and an infinity when that reaches \<open>2 ^ 1024\<close>.
\<close>

datatype js_number = Num rat | PosInfinity | NegInfinity | NaN

definition round_half_even :: "rat \<Rightarrow> int" where
  "round_half_even x =
     (let f = \<lfloor>x\<rfloor>; r = x - of_int f in
      if r < 1 / 2 then f else if 1 / 2 < r then f + 1 else if even f then f else f + 1)"

definition ilog2 :: "rat \<Rightarrow> int" where
  "ilog2 x =
     (let (a, b) = quotient_of x; k = bitlen a - bitlen b in
      if 2 powi k \<le> x then k else k - 1)"

definition fl :: "rat \<Rightarrow> rat" where
  "fl x =
     (if x = 0 then 0
      else let u = 2 powi (ilog2 x - 52) in of_int (round_half_even (x / u)) * u)"

definition number_of_int :: "int \<Rightarrow> js_number" where
  "number_of_int z =
     (if z = 0 then Num 0
      else let y = fl (of_int \<bar>z\<bar>) in
        if 2 ^ 1024 \<le> y then (if 0 < z then PosInfinity else NegInfinity)
        else Num (if 0 < z then y else - y))"

text \<open>\<open>a === b\<close> on numbers: equal values, and \<open>NaN\<close> equals nothing.\<close>

definition strict_eq :: "js_number \<Rightarrow> js_number \<Rightarrow> bool" where
  "strict_eq a b = (a \<noteq> NaN \<and> b \<noteq> NaN \<and> a = b)"

section \<open>Data model of \<open>src/App.tsx\<close>\<close>

text \<open>
  The interfaces \<open>StatData\<close> and \<open>Stat\<close>. An optional field (\<open>drapeau?: string\<close>) is an
  \<open>option\<close>: \<open>None\<close> is JavaScript's \<open>undefined\<close>. Strings are lists of code units
  below 256. The field \<open>id\<close> of \<open>Stat\<close> is named \<open>id_stat\<close>.
\<close>

record StatData =
  temps :: "js_number option"
  nom :: "string option"
  drapeau :: "string option"
  temps_actuel :: "string option"

record Stat =
  data :: StatData
  id_stat :: string
  type :: string
  user_id :: js_number

text \<open>
  The component's state: the seven \<open>useState\<close> cells of \<open>App\<close>. The three criteria cells
  \<open>userId\<close>, \<open>type\<close> and \<open>drapeau\<close> share their names with fields above and carry the
  suffix \<open>_st\<close> where they clash.
\<close>

record app_state =
  userId :: string
  type_st :: string
  drapeau_st :: string
  filteredStats :: "Stat list"
  allStats :: "Stat list"
  loading :: bool
  error :: "string option"

section \<open>\<open>parseInt\<close>\<close>

text \<open>
  \<open>parseInt(s)\<close> with no radix, as ECMAScript defines it: leading white space is
  dropped, then an optional sign, then the prefix \<open>0x\<close> or \<open>0X\<close> switches to radix 16;
  the longest run of digits of the radix is the mathematical value, whose Number value
  is returned, and an empty run gives \<open>NaN\<close>. (For a decimal run of more than 20
  significant digits ECMAScript lets an engine round an approximation; the model rounds
  the exact value.)
\<close>

definition is_white_space :: "char \<Rightarrow> bool" where
  "is_white_space c = (of_char c \<in> {9, 10, 11, 12, 13, 32, 160 :: int})"

definition digit_value :: "char \<Rightarrow> int option" where
  "digit_value c =
     (let n = (of_char c :: int) in
      if 48 \<le> n \<and> n \<le> 57 then Some (n - 48)
      else if 97 \<le> n \<and> n \<le> 122 then Some (n - 87)
      else if 65 \<le> n \<and> n \<le> 90 then Some (n - 55)
      else None)"

definition is_radix_digit :: "int \<Rightarrow> char \<Rightarrow> bool" where
  "is_radix_digit r c = (case digit_value c of None \<Rightarrow> False | Some d \<Rightarrow> d < r)"

definition radix_value :: "int \<Rightarrow> string \<Rightarrow> int" where
  "radix_value r z = foldl (\<lambda>acc c. acc * r + the (digit_value c)) 0 z"

definition parse_digits :: "int \<Rightarrow> int \<Rightarrow> string \<Rightarrow> js_number" where
  "parse_digits r sign s =
     (let z = takeWhile (is_radix_digit r) s in
      if z = [] then NaN else number_of_int (sign * radix_value r z))"

definition strip_prefix_parse :: "int \<Rightarrow> string \<Rightarrow> js_number" where
  "strip_prefix_parse sign s =
     (if take 2 s = ''0x'' \<or> take 2 s = ''0X'' then parse_digits 16 sign (drop 2 s)
      else parse_digits 10 sign s)"

definition parseInt :: "string \<Rightarrow> js_number" where
  "parseInt input =
     (let s = dropWhile is_white_space input in
      case s of
        [] \<Rightarrow> NaN
      | c # rest \<Rightarrow>
          if c = CHR ''-'' then strip_prefix_parse (- 1) rest
          else if c = CHR ''+'' then strip_prefix_parse 1 rest
          else strip_prefix_parse 1 s)"

section \<open>\<open>handleSearch\<close>, \<open>handleReset\<close>\<close>

text \<open>
  The computation of \<open>handleSearch\<close> on the three criteria strings and the record set:
  each \<open>if (s)\<close> tests a string for truthiness, that is for being non-empty, and each
  \<open>filter\<close> narrows the previous result.
\<close>

definition search_filter :: "string \<Rightarrow> string \<Rightarrow> string \<Rightarrow> Stat list \<Rightarrow> Stat list" where
  "search_filter uid ty dr stats =
     (let filtered = stats;
          filtered = (if uid \<noteq> [] then
                        filter (\<lambda>stat. strict_eq (user_id stat) (parseInt uid)) filtered
                      else filtered);
          filtered = (if ty \<noteq> [] then
                        filter (\<lambda>stat. type stat = ty) filtered
                      else filtered);
          filtered = (if dr \<noteq> [] then
                        filter (\<lambda>stat. drapeau (data stat) = Some dr) filtered
                      else filtered)
      in filtered)"

definition handleSearch :: "app_state \<Rightarrow> app_state" where
  "handleSearch st =
     st\<lparr>filteredStats := search_filter (userId st) (type_st st) (drapeau_st st) (allStats st)\<rparr>"

definition handleReset :: "app_state \<Rightarrow> app_state" where
  "handleReset st = st\<lparr>userId := [], type_st := [], drapeau_st := [], filteredStats := []\<rparr>"

section \<open>Grouping by flag: \<open>getStatsByFlag\<close>\<close>

text \<open>
  \<open>stat.data.drapeau || "Tous drapeaux"\<close>: the sentinel replaces a flag that is
  \<open>undefined\<close> or the empty string, the two falsy values of the field's type.
\<close>

definition flagName :: "Stat \<Rightarrow> string" where
  "flagName stat =
     (case drapeau (data stat) of
        None \<Rightarrow> ''Tous drapeaux''
      | Some s \<Rightarrow> if s = [] then ''Tous drapeaux'' else s)"

text \<open>
  The accumulator of the \<open>reduce\<close> is the object literal \<open>{}\<close>. Its own properties are
  an association list in creation order. Its prototype is \<open>Object.prototype\<close>, so a read
  \<open>acc[k]\<close> of a key the object does not own finds the property of that name on the
  prototype, when there is one: a function, or the prototype itself for \<open>__proto__\<close>.
  These are the property names of \<open>Object.prototype\<close> in ECMAScript (with its annex B).
\<close>

type_synonym 'v js_object = "(string \<times> 'v) list"

definition object_prototype_keys :: "string list" where
  "object_prototype_keys =
     [''constructor'', ''hasOwnProperty'', ''isPrototypeOf'', ''propertyIsEnumerable'',
      ''toLocaleString'', ''toString'', ''valueOf'', ''__proto__'',
      ''__defineGetter__'', ''__defineSetter__'', ''__lookupGetter__'', ''__lookupSetter__'']"

datatype 'v js_property = Undefined | Inherited | Own 'v

definition get_property :: "'v js_object \<Rightarrow> string \<Rightarrow> 'v js_property" where
  "get_property acc k =
     (case map_of acc k of
        Some v \<Rightarrow> Own v
      | None \<Rightarrow> if k \<in> set object_prototype_keys then Inherited else Undefined)"

definition set_property :: "'v js_object \<Rightarrow> string \<Rightarrow> 'v \<Rightarrow> 'v js_object" where
  "set_property acc k v =
     (if k \<in> fst ` set acc then map (\<lambda>(k', v'). if k' = k then (k', v) else (k', v')) acc
      else acc @ [(k, v)])"

datatype js_error = TypeError

text \<open>
  One call of the reducer. \<open>!acc[flagName]\<close> holds only for \<open>undefined\<close>: an array and
  an inherited property are truthy. \<open>acc[flagName].push(stat)\<close> appends to an own array;
  an inherited property has no method \<open>push\<close>, and calling it throws a \<open>TypeError\<close>.
\<close>

definition group_step :: "Stat list js_object \<Rightarrow> Stat \<Rightarrow> js_error + Stat list js_object" where
  "group_step acc stat =
     (let k = flagName stat;
          acc1 = (if get_property acc k = Undefined then set_property acc k [] else acc)
      in case get_property acc1 k of
           Own bucket \<Rightarrow> Inr (set_property acc1 k (bucket @ [stat]))
         | Inherited \<Rightarrow> Inl TypeError
         | Undefined \<Rightarrow> Inl TypeError)"

fun reduce_group :: "Stat list js_object \<Rightarrow> Stat list \<Rightarrow> js_error + Stat list js_object" where
  "reduce_group acc [] = Inr acc"
| "reduce_group acc (stat # stats) =
     (case group_step acc stat of
        Inl e \<Rightarrow> Inl e
      | Inr acc' \<Rightarrow> reduce_group acc' stats)"

definition getStatsByFlag :: "Stat list \<Rightarrow> js_error + Stat list js_object" where
  "getStatsByFlag filtered = reduce_group [] filtered"

section \<open>Ranking: \<open>getCountriesByCount\<close>\<close>

text \<open>
  \<open>Object.entries\<close> lists the own properties: first the keys that are array indices
  (canonical decimal numerals below \<open>2 ^ 32 - 1\<close>) in ascending numeric order, then
  the other keys in creation order.
\<close>

definition is_decimal_digit :: "char \<Rightarrow> bool" where
  "is_decimal_digit c = (48 \<le> (of_char c :: int) \<and> (of_char c :: int) \<le> 57)"

definition is_array_index :: "string \<Rightarrow> bool" where
  "is_array_index k =
     (k \<noteq> [] \<and> list_all is_decimal_digit k \<and> (k = ''0'' \<or> hd k \<noteq> CHR ''0'') \<and>
      radix_value 10 k < 2 ^ 32 - 1)"

definition object_entries :: "'v js_object \<Rightarrow> (string \<times> 'v) list" where
  "object_entries obj =
     sort_key (\<lambda>(k, v). radix_value 10 k) (filter (\<lambda>(k, v). is_array_index k) obj) @
     filter (\<lambda>(k, v). \<not> is_array_index k) obj"

text \<open>
  \<open>Array.prototype.sort\<close> with a comparator is stable: \<open>a\<close> stays before \<open>b\<close> unless
  \<open>cmp(a, b) > 0\<close>. Insertion from the right end gives that order.
\<close>

fun insert_sorted :: "('a \<Rightarrow> 'a \<Rightarrow> int) \<Rightarrow> 'a \<Rightarrow> 'a list \<Rightarrow> 'a list" where
  "insert_sorted cmp a [] = [a]"
| "insert_sorted cmp a (b # bs) =
     (if cmp a b > 0 then b # insert_sorted cmp a bs else a # b # bs)"

definition array_sort :: "('a \<Rightarrow> 'a \<Rightarrow> int) \<Rightarrow> 'a list \<Rightarrow> 'a list" where
  "array_sort cmp xs = foldr (insert_sorted cmp) xs []"

text \<open>
  \<open>(stats.length / total) * 100\<close> is the exact quotient rounded by \<open>fl\<close>, then the
  exact product rounded by \<open>fl\<close>. \<open>show_nat\<close> is the decimal numeral of a natural
  number. \<open>x.toFixed(1)\<close>, for \<open>0 \<le> x < 10 ^ 21\<close>, takes the integer \<open>n\<close> nearest to
  \<open>10 * x\<close>, the larger one of two, and writes it with one digit after the point.
\<close>

fun show_nat :: "nat \<Rightarrow> string" where
  "show_nat n =
     (if n < 10 then [char_of (48 + n)]
      else show_nat (n div 10) @ [char_of (48 + n mod 10)])"

declare show_nat.simps [simp del]

definition toFixed1 :: "rat \<Rightarrow> string" where
  "toFixed1 x =
     (let n = nat \<lfloor>10 * x + 1 / 2\<rfloor> in show_nat (n div 10) @ ''.'' @ show_nat (n mod 10))"

record CountryCount =
  name :: string
  count :: nat
  percentage :: string

definition make_percentage :: "nat \<Rightarrow> nat \<Rightarrow> string" where
  "make_percentage len total_n =
     (if total_n > 0 then toFixed1 (fl (fl (of_nat len / of_nat total_n) * 100)) @ ''%''
      else ''0%'')"

definition getCountriesByCount :: "Stat list \<Rightarrow> js_error + CountryCount list" where
  "getCountriesByCount filtered =
     (case getStatsByFlag filtered of
        Inl e \<Rightarrow> Inl e
      | Inr flagCounts \<Rightarrow>
          let total_n = length filtered in
          Inr (array_sort (\<lambda>a b. int (count b) - int (count a))
                 (map (\<lambda>(flagName, stats).
                         \<lparr>name = flagName, count = length stats,
                          percentage = make_percentage (length stats) total_n\<rparr>)
                    (object_entries flagCounts))))"

section \<open>\<open>fetchData\<close>, \<open>handleRefresh\<close> and the rendered view\<close>

text \<open>
  One run of \<open>fetchData\<close> from its call to the end of its \<open>finally\<close> block, given what
  the network does: \<open>fetch\<close> rejects with a thrown value, or resolves to a response with
  a status, whose \<open>json()\<close> then yields the envelope's \<open>data\<close> or throws. A thrown value
  is an \<open>Error\<close> with a message, or anything else. \<open>response.ok\<close> is true for the
  statuses 200 to 299.
\<close>

datatype thrown = ErrorObject string | OtherValue

datatype json_outcome = JsonData "Stat list" | JsonThrows thrown

datatype fetch_outcome = FetchRejects thrown | FetchResponse nat json_outcome

definition response_ok :: "nat \<Rightarrow> bool" where
  "response_ok status = (200 \<le> status \<and> status \<le> 299)"

definition catch_message :: "thrown \<Rightarrow> string" where
  "catch_message err =
     (case err of ErrorObject message \<Rightarrow> message | OtherValue \<Rightarrow> ''Une erreur est survenue'')"

definition fetchData :: "fetch_outcome \<Rightarrow> app_state \<Rightarrow> app_state" where
  "fetchData outcome st =
     (let st1 = st\<lparr>loading := True, error := None\<rparr>;
          st2 =
            (case outcome of
               FetchRejects err \<Rightarrow> st1\<lparr>error := Some (catch_message err)\<rparr>
             | FetchResponse status body \<Rightarrow>
                 if \<not> response_ok status then
                   st1\<lparr>error :=
                     Some (catch_message (ErrorObject (''Erreur HTTP: '' @ show_nat status)))\<rparr>
                 else
                   (case body of
                      JsonThrows err \<Rightarrow> st1\<lparr>error := Some (catch_message err)\<rparr>
                    | JsonData d \<Rightarrow> st1\<lparr>allStats := d\<rparr>))
      in st2\<lparr>loading := False\<rparr>)"

definition handleRefresh :: "fetch_outcome \<Rightarrow> app_state \<Rightarrow> app_state" where
  "handleRefresh outcome st = (fetchData outcome st)\<lparr>filteredStats := []\<rparr>"

text \<open>
  What \<open>App\<close> returns: \<open>getCountriesByCount\<close> runs first, then the loading view, the
  error view (\<open>if (error)\<close> holds for a non-empty message) or the results, whose
  ranking is shown when \<open>filteredStats\<close> is not empty.
\<close>

datatype view =
  LoadingView
| ErrorView string
| ResultsView nat nat "CountryCount list"

definition render :: "app_state \<Rightarrow> js_error + view" where
  "render st =
     (case getCountriesByCount (filteredStats st) of
        Inl e \<Rightarrow> Inl e
      | Inr countriesByCount \<Rightarrow>
          if loading st then Inr LoadingView
          else
            (case error st of
               Some message \<Rightarrow>
                 if message \<noteq> [] then Inr (ErrorView message)
                 else Inr (ResultsView (length (allStats st)) (length (filteredStats st))
                        (if length (filteredStats st) > 0 then countriesByCount else []))
             | None \<Rightarrow>
                 Inr (ResultsView (length (allStats st)) (length (filteredStats st))
                        (if length (filteredStats st) > 0 then countriesByCount else []))))"

section \<open>User actions on a loaded record set\<close>

text \<open>
  The initial state of the \<open>useState\<close> cells, and the actions that leave the loaded
  record set alone: typing into the identifier field, choosing a type, the search button
  and the reset button. \<open>setDrapeau\<close> is among them, though no control calls it.
\<close>

definition initial_state :: app_state where
  "initial_state =
     \<lparr>userId = [], type_st = [], drapeau_st = [], filteredStats = [], allStats = [],
      loading = True, error = None\<rparr>"

datatype action = SetUserId string | SetType string | SetDrapeau string | Search | Reset

fun apply_action :: "app_state \<Rightarrow> action \<Rightarrow> app_state" where
  "apply_action st (SetUserId v) = st\<lparr>userId := v\<rparr>"
| "apply_action st (SetType v) = st\<lparr>type_st := v\<rparr>"
| "apply_action st (SetDrapeau v) = st\<lparr>drapeau_st := v\<rparr>"
| "apply_action st Search = handleSearch st"
| "apply_action st Reset = handleReset st"

definition run_actions :: "app_state \<Rightarrow> action list \<Rightarrow> app_state" where
  "run_actions st acts = foldl apply_action st acts"

section \<open>The identifier field\<close>

text \<open>
  The identifier is typed into \<open><input type="number" value={userId}
  onChange={(e) => setUserId(e.target.value)}>\<close>. The browser sanitises the value of an
  input element in the Number state (HTML, value sanitization algorithm): text that is
  not a valid floating-point number becomes the empty string. A valid floating-point
  number is an optional \<open>-\<close>, then digits, or a point and digits, or both in that order,
  then optionally \<open>e\<close> or \<open>E\<close>, an optional sign and digits.
\<close>

definition strip_minus :: "string \<Rightarrow> string" where
  "strip_minus s = (case s of [] \<Rightarrow> [] | c # r \<Rightarrow> if c = CHR ''-'' then r else s)"

definition strip_sign :: "string \<Rightarrow> string" where
  "strip_sign s =
     (case s of [] \<Rightarrow> [] | c # r \<Rightarrow> if c = CHR ''-'' \<or> c = CHR ''+'' then r else s)"

definition valid_exponent :: "string \<Rightarrow> bool" where
  "valid_exponent s =
     (case s of
        [] \<Rightarrow> False
      | c # r \<Rightarrow>
          (c = CHR ''e'' \<or> c = CHR ''E'') \<and> strip_sign r \<noteq> [] \<and>
          list_all is_decimal_digit (strip_sign r))"

definition valid_floating_point_number :: "string \<Rightarrow> bool" where
  "valid_floating_point_number s =
     (let s1 = strip_minus s;
          ip = takeWhile is_decimal_digit s1;
          s2 = dropWhile is_decimal_digit s1;
          fp = (case s2 of
                  [] \<Rightarrow> []
                | c # r \<Rightarrow> if c = CHR ''.'' then takeWhile is_decimal_digit r else []);
          s3 = (if fp \<noteq> [] then drop (1 + length fp) s2 else s2)
      in (ip \<noteq> [] \<or> fp \<noteq> []) \<and> (s3 = [] \<or> valid_exponent s3))"

definition number_input_value :: "string \<Rightarrow> string" where
  "number_input_value raw = (if valid_floating_point_number raw then raw else [])"

definition userId_onChange :: "string \<Rightarrow> app_state \<Rightarrow> app_state" where
  "userId_onChange raw st = st\<lparr>userId := number_input_value raw\<rparr>"

section \<open>Auxiliary definitions\<close>

text \<open>The number of records held by the buckets of a grouping.\<close>

definition bucket_total :: "'a list js_object \<Rightarrow> nat" where
  "bucket_total acc = sum_list (map (\<lambda>(k, b). length b) acc)"

text \<open>A percentage string is one or more digits, a point, one digit and \<open>%\<close>.\<close>

definition one_decimal_percent :: "string \<Rightarrow> bool" where
  "one_decimal_percent s =
     (case rev s of
        p # d # dot # ds \<Rightarrow>
          p = CHR ''%'' \<and> is_decimal_digit d \<and> dot = CHR ''.'' \<and> ds \<noteq> [] \<and>
          list_all is_decimal_digit ds
      | _ \<Rightarrow> False)"

text \<open>The decimal numeral of an integer.\<close>

definition show_int :: "int \<Rightarrow> string" where
  "show_int n = (if n < 0 then CHR ''-'' # show_nat (nat (- n)) else show_nat (nat n))"

text \<open>
  Sample data for evaluating the operations: three records, flags \<open>FR\<close>, \<open>FR\<close>,
  \<open>DE\<close>, and a state in which they are loaded.
\<close>

definition mk_stat :: "string \<Rightarrow> string \<Rightarrow> int \<Rightarrow> string option \<Rightarrow> Stat" where
  "mk_stat i t u f =
     \<lparr>data = \<lparr>temps = None, nom = None, drapeau = f, temps_actuel = None\<rparr>,
      id_stat = i, type = t, user_id = Num (of_int u)\<rparr>"

definition example_stats :: "Stat list" where
  "example_stats =
     [mk_stat ''a'' ''erreur'' 5 (Some ''FR''), mk_stat ''b'' ''passer'' 6 (Some ''FR''),
      mk_stat ''c'' ''erreur'' 5 (Some ''DE'')]"

definition example_state :: app_state where
  "example_state = initial_state\<lparr>allStats := example_stats, loading := False\<rparr>"

section \<open>Properties of the filter\<close>

lemma search_filter_eq:
  "search_filter uid ty dr stats =
     filter (\<lambda>stat. (uid = [] \<or> strict_eq (user_id stat) (parseInt uid)) \<and>
                     (ty = [] \<or> type stat = ty) \<and>
                     (dr = [] \<or> drapeau (data stat) = Some dr)) stats"
  by (simp add: search_filter_def Let_def)

lemma parseInt_5: "parseInt ''5'' = Num 5"
  by code_simp

lemma parseInt_abc: "parseInt ''abc'' = NaN"
  by code_simp

lemma allStats_apply_action: "allStats (apply_action st a) = allStats st"
  by (cases a) (simp_all add: handleSearch_def handleReset_def)

lemma allStats_run_actions: "allStats (run_actions st acts) = allStats st"
  unfolding run_actions_def
  by (induction acts arbitrary: st) (simp_all add: allStats_apply_action)

section \<open>Properties of the object model\<close>

lemma set_property_fresh:
  "k \<notin> fst ` set acc \<Longrightarrow> set_property acc k v = acc @ [(k, v)]"
  by (simp add: set_property_def)

lemma keys_set_property:
  "map fst (set_property acc k v) = (if k \<in> fst ` set acc then map fst acc else map fst acc @ [k])"
  by (auto simp: set_property_def split: prod.splits)

lemma map_of_set_property:
  "map_of (set_property acc k v) k' = (if k' = k then Some v else map_of acc k')"
proof (cases "k \<in> fst ` set acc")
  case True
  have "map_of (map (\<lambda>(k', v'). if k' = k then (k', v) else (k', v')) acc) k' =
        (if k' = k then (if k \<in> fst ` set acc then Some v else None) else map_of acc k')"
    by (induction acc) (force split: prod.splits)+
  with True show ?thesis by (simp add: set_property_def)
next
  case False
  then have "map_of acc k = None" by (simp add: map_of_eq_None_iff)
  with False show ?thesis by (auto simp: set_property_def map_add_def split: option.splits)
qed

lemma bucket_total_set_property_own:
  "distinct (map fst acc) \<Longrightarrow> map_of acc k = Some b \<Longrightarrow>
   bucket_total (set_property acc k v) + length b = bucket_total acc + length v"
proof (induction acc)
  case Nil
  then show ?case by simp
next
  case (Cons p acc)
  obtain k' b' where p: "p = (k', b')" by (cases p)
  show ?case
  proof (cases "k' = k")
    case True
    with Cons.prems p have "k \<notin> fst ` set acc" "b' = b" by auto
    then have "map (\<lambda>(k', v'). if k' = k then (k', v) else (k', v')) acc = acc"
      by (intro map_idI) (force split: prod.splits)
    with True p \<open>b' = b\<close> show ?thesis
      by (simp add: set_property_def bucket_total_def)
  next
    case False
    with Cons.prems p have d: "distinct (map fst acc)" and m: "map_of acc k = Some b" by auto
    from m have "k \<in> fst ` set acc" by (metis map_of_eq_None_iff option.distinct(1))
    with Cons.IH[OF d m] False p show ?thesis
      by (simp add: set_property_def bucket_total_def)
  qed
qed

section \<open>Properties of the grouping\<close>

text \<open>
  \<open>group_step\<close> by cases on the bucket of the record's flag: an own bucket grows, a
  fresh flag opens a bucket, and a fresh flag that names a property of
  \<open>Object.prototype\<close> throws.
\<close>

lemma group_step_eq:
  "group_step acc stat =
     (case map_of acc (flagName stat) of
        Some b \<Rightarrow> Inr (set_property acc (flagName stat) (b @ [stat]))
      | None \<Rightarrow>
          if flagName stat \<in> set object_prototype_keys then Inl TypeError
          else Inr (acc @ [(flagName stat, [stat])]))"
proof (cases "map_of acc (flagName stat)")
  case (Some b)
  then show ?thesis by (simp add: group_step_def get_property_def)
next
  case None
  then have fresh: "flagName stat \<notin> fst ` set acc" by (simp add: map_of_eq_None_iff)
  show ?thesis
  proof (cases "flagName stat \<in> set object_prototype_keys")
    case True
    with None show ?thesis by (simp add: group_step_def get_property_def)
  next
    case False
    have "set_property (acc @ [(flagName stat, [])]) (flagName stat) [stat] =
          acc @ [(flagName stat, [stat])]"
      using fresh by (force simp: set_property_def split: prod.splits intro: map_idI)
    moreover have "get_property acc (flagName stat) = Undefined"
      using None False by (simp add: get_property_def)
    moreover have "get_property (set_property acc (flagName stat) []) (flagName stat) = Own []"
      by (simp add: get_property_def map_of_set_property)
    moreover have "set_property acc (flagName stat) [] = acc @ [(flagName stat, [])]"
      using fresh by (rule set_property_fresh)
    ultimately show ?thesis
      using None False by (simp add: group_step_def Let_def)
  qed
qed

lemma group_step_distinct:
  "group_step acc stat = Inr acc' \<Longrightarrow> distinct (map fst acc) \<Longrightarrow> distinct (map fst acc')"
  by (auto simp: group_step_eq keys_set_property map_of_eq_None_iff
      split: option.splits if_splits)

lemma group_step_total:
  "group_step acc stat = Inr acc' \<Longrightarrow> distinct (map fst acc) \<Longrightarrow>
   bucket_total acc' = bucket_total acc + 1"
proof (cases "map_of acc (flagName stat)")
  case None
  assume "group_step acc stat = Inr acc'"
  with None show ?thesis
    by (auto simp: group_step_eq bucket_total_def split: if_splits)
next
  case (Some b)
  assume "group_step acc stat = Inr acc'" and d: "distinct (map fst acc)"
  with Some have "acc' = set_property acc (flagName stat) (b @ [stat])"
    by (simp add: group_step_eq)
  with bucket_total_set_property_own[OF d Some, of "b @ [stat]"] show ?thesis by simp
qed

lemma group_step_map_of:
  "group_step acc stat = Inr acc' \<Longrightarrow>
   map_of acc' k =
     (if k = flagName stat
      then Some ((case map_of acc k of None \<Rightarrow> [] | Some b \<Rightarrow> b) @ [stat])
      else map_of acc k)"
  by (auto simp: group_step_eq map_of_set_property map_add_def split: option.splits if_splits)

lemma group_step_error:
  "group_step acc stat = Inl e \<longleftrightarrow>
   e = TypeError \<and> map_of acc (flagName stat) = None \<and> flagName stat \<in> set object_prototype_keys"
  by (cases e) (auto simp: group_step_eq split: option.splits)

lemma reduce_group_distinct:
  "reduce_group acc stats = Inr g \<Longrightarrow> distinct (map fst acc) \<Longrightarrow> distinct (map fst g)"
  by (induction stats arbitrary: acc) (auto split: sum.splits dest: group_step_distinct)

lemma reduce_group_total:
  "reduce_group acc stats = Inr g \<Longrightarrow> distinct (map fst acc) \<Longrightarrow>
   bucket_total g = bucket_total acc + length stats"
proof (induction stats arbitrary: acc)
  case Nil
  then show ?case by simp
next
  case (Cons stat stats)
  from Cons.prems(1) obtain acc' where
    step: "group_step acc stat = Inr acc'" and rest: "reduce_group acc' stats = Inr g"
    by (auto split: sum.splits)
  from group_step_distinct[OF step Cons.prems(2)] have "distinct (map fst acc')" .
  from Cons.IH[OF rest this] group_step_total[OF step Cons.prems(2)] show ?case by simp
qed

lemma reduce_group_map_of:
  "reduce_group acc stats = Inr g \<Longrightarrow>
   map_of g k =
     (case map_of acc k of
        Some b \<Rightarrow> Some (b @ filter (\<lambda>s. flagName s = k) stats)
      | None \<Rightarrow>
          if k \<in> flagName ` set stats then Some (filter (\<lambda>s. flagName s = k) stats) else None)"
proof (induction stats arbitrary: acc)
  case Nil
  then show ?case by (simp split: option.splits)
next
  case (Cons stat stats)
  from Cons.prems obtain acc' where
    step: "group_step acc stat = Inr acc'" and rest: "reduce_group acc' stats = Inr g"
    by (auto split: sum.splits)
  show ?case
    unfolding Cons.IH[OF rest] group_step_map_of[OF step]
    by (auto split: option.splits)
qed

lemma reduce_group_keys:
  "reduce_group acc stats = Inr g \<Longrightarrow> fst ` set g = fst ` set acc \<union> flagName ` set stats"
proof -
  assume r: "reduce_group acc stats = Inr g"
  have "k \<in> fst ` set g \<longleftrightarrow> k \<in> fst ` set acc \<union> flagName ` set stats" for k
  proof -
    have "k \<in> fst ` set g \<longleftrightarrow> map_of g k \<noteq> None" by (simp add: map_of_eq_None_iff)
    also have "\<dots> \<longleftrightarrow> map_of acc k \<noteq> None \<or> k \<in> flagName ` set stats"
      by (simp add: reduce_group_map_of[OF r] split: option.splits)
    also have "\<dots> \<longleftrightarrow> k \<in> fst ` set acc \<union> flagName ` set stats"
      by (simp add: map_of_eq_None_iff)
    finally show ?thesis .
  qed
  then show ?thesis by blast
qed

lemma reduce_group_returns:
  "\<forall>s \<in> set stats. flagName s \<notin> set object_prototype_keys \<Longrightarrow>
   \<exists>g. reduce_group acc stats = Inr g"
proof (induction stats arbitrary: acc)
  case Nil
  then show ?case by simp
next
  case (Cons stat stats)
  then have "flagName stat \<notin> set object_prototype_keys" by simp
  then obtain acc' where "group_step acc stat = Inr acc'"
    by (cases "map_of acc (flagName stat)") (auto simp: group_step_eq)
  with Cons show ?case by simp
qed

lemma reduce_group_throws:
  "\<forall>k \<in> fst ` set acc. k \<notin> set object_prototype_keys \<Longrightarrow>
   \<exists>s \<in> set stats. flagName s \<in> set object_prototype_keys \<Longrightarrow>
   reduce_group acc stats = Inl TypeError"
proof (induction stats arbitrary: acc)
  case Nil
  then show ?case by simp
next
  case (Cons stat stats)
  show ?case
  proof (cases "group_step acc stat")
    case (Inl e)
    then show ?thesis by (cases e) simp
  next
    case (Inr acc')
    then have "flagName stat \<notin> set object_prototype_keys"
      using Cons.prems(1)
      by (cases "map_of acc (flagName stat)")
        (auto simp: group_step_eq split: if_splits dest!: map_of_SomeD)
    then have later: "\<exists>s \<in> set stats. flagName s \<in> set object_prototype_keys"
      using Cons.prems(2) by auto
    have "reduce_group acc [stat] = Inr acc'" using Inr by simp
    from reduce_group_keys[OF this] Cons.prems(1)
      \<open>flagName stat \<notin> set object_prototype_keys\<close>
    have "\<forall>k \<in> fst ` set acc'. k \<notin> set object_prototype_keys" by auto
    from Cons.IH[OF this later] Inr show ?thesis by simp
  qed
qed

lemma reduce_group_nonempty:
  "reduce_group [] stats = Inr g \<Longrightarrow> (k, b) \<in> set g \<Longrightarrow> b \<noteq> []"
proof -
  assume r: "reduce_group [] stats = Inr g" and m: "(k, b) \<in> set g"
  from reduce_group_distinct[OF r] have "distinct (map fst g)" by simp
  with m have "map_of g k = Some b" by simp
  with reduce_group_map_of[OF r, of k] have "b = filter (\<lambda>s. flagName s = k) stats"
    and "k \<in> flagName ` set stats"
    by (auto split: if_splits)
  then show ?thesis by (auto simp: filter_empty_conv)
qed

lemma getStatsByFlag_total:
  "getStatsByFlag R = Inr g \<Longrightarrow> bucket_total g = length R"
  using reduce_group_total[of "[]" R g] by (simp add: getStatsByFlag_def bucket_total_def)

text \<open>
  When the grouping throws: exactly when some record's flag names a property of
  \<open>Object.prototype\<close>. On every other record set \<open>getCountriesByCount\<close> returns a
  ranking.
\<close>

lemma getStatsByFlag_throws_iff:
  "getStatsByFlag R = Inl TypeError \<longleftrightarrow> (\<exists>s \<in> set R. flagName s \<in> set object_prototype_keys)"
proof
  assume "getStatsByFlag R = Inl TypeError"
  then show "\<exists>s \<in> set R. flagName s \<in> set object_prototype_keys"
    using reduce_group_returns[of R "[]"] by (auto simp: getStatsByFlag_def)
next
  assume "\<exists>s \<in> set R. flagName s \<in> set object_prototype_keys"
  then show "getStatsByFlag R = Inl TypeError"
    using reduce_group_throws[of "[]" R] by (simp add: getStatsByFlag_def)
qed

lemma getCountriesByCount_Inr:
  "getCountriesByCount R = Inr out \<longleftrightarrow>
   (\<exists>g. getStatsByFlag R = Inr g \<and>
        out = array_sort (\<lambda>a b. int (count b) - int (count a))
                (map (\<lambda>(k, b). \<lparr>name = k, count = length b,
                                  percentage = make_percentage (length b) (length R)\<rparr>)
                   (object_entries g)))"
  by (auto simp: getCountriesByCount_def Let_def split: sum.splits)

lemma getCountriesByCount_returns_iff:
  "(\<exists>out. getCountriesByCount R = Inr out) \<longleftrightarrow>
   (\<forall>s \<in> set R. flagName s \<notin> set object_prototype_keys)"
proof -
  have "(\<exists>out. getCountriesByCount R = Inr out) \<longleftrightarrow> (\<exists>g. getStatsByFlag R = Inr g)"
    by (auto simp: getCountriesByCount_Inr)
  also have "\<dots> \<longleftrightarrow> getStatsByFlag R \<noteq> Inl TypeError"
    by (cases "getStatsByFlag R") (auto intro: js_error.exhaust)
  also have "\<dots> \<longleftrightarrow> (\<forall>s \<in> set R. flagName s \<notin> set object_prototype_keys)"
    by (simp add: getStatsByFlag_throws_iff)
  finally show ?thesis .
qed

lemma getCountriesByCount_Nil: "getCountriesByCount [] = Inr []"
  by (simp add: getCountriesByCount_def getStatsByFlag_def object_entries_def array_sort_def)

lemma inherited_flag_throws:
  "getCountriesByCount [mk_stat ''a'' ''erreur'' 5 (Some ''constructor'')] = Inl TypeError"
  by code_simp

section \<open>Properties of \<open>Object.entries\<close> and of the sort\<close>

lemma sum_list_insort_key:
  "sum_list (map f (insort_key h x xs)) = f x + sum_list (map f xs)"
  for f :: "'a \<Rightarrow> nat"
  by (induction xs) auto

lemma sum_list_sort_key:
  "sum_list (map f (sort_key h xs)) = sum_list (map f xs)"
  for f :: "'a \<Rightarrow> nat"
  by (induction xs) (auto simp: sum_list_insort_key)

lemma sum_list_filter_split:
  "sum_list (map f (filter P xs)) + sum_list (map f (filter (\<lambda>x. \<not> P x) xs)) = sum_list (map f xs)"
  for f :: "'a \<Rightarrow> nat"
  by (induction xs) auto

lemma sum_list_object_entries:
  "sum_list (map f (object_entries obj)) = sum_list (map f obj)"
  for f :: "string \<times> 'v \<Rightarrow> nat"
proof -
  have "(\<lambda>(k, v). \<not> is_array_index k) = (\<lambda>x :: string \<times> 'v. \<not> (case x of (k, v) \<Rightarrow> is_array_index k))"
    by auto
  then show ?thesis
    by (simp add: object_entries_def sum_list_sort_key sum_list_filter_split)
qed

lemma set_object_entries: "set (object_entries obj) = set obj"
  by (auto simp: object_entries_def)

lemma sum_list_insert_sorted:
  "sum_list (map f (insert_sorted cmp a bs)) = f a + sum_list (map f bs)"
  for f :: "'a \<Rightarrow> nat"
  by (induction bs) auto

lemma sum_list_array_sort:
  "sum_list (map f (array_sort cmp xs)) = sum_list (map f xs)"
  for f :: "'a \<Rightarrow> nat"
  by (induction xs) (auto simp: array_sort_def sum_list_insert_sorted)

lemma set_insert_sorted: "set (insert_sorted cmp a bs) = insert a (set bs)"
  by (induction bs) auto

lemma set_array_sort: "set (array_sort cmp xs) = set xs"
  by (induction xs) (auto simp: array_sort_def set_insert_sorted)

lemma length_insert_sorted: "length (insert_sorted cmp a bs) = Suc (length bs)"
  by (induction bs) auto

lemma length_array_sort: "length (array_sort cmp xs) = length xs"
  by (induction xs) (auto simp: array_sort_def length_insert_sorted)

lemma sorted_insert_sorted:
  "sorted_wrt (\<lambda>a b. f b \<le> f a) bs \<Longrightarrow>
   sorted_wrt (\<lambda>a b. f b \<le> f a) (insert_sorted (\<lambda>a b. int (f b) - int (f a)) x bs)"
  for f :: "'a \<Rightarrow> nat"
  by (induction bs) (auto simp: set_insert_sorted)

lemma sorted_array_sort:
  "sorted_wrt (\<lambda>a b. f b \<le> f a) (array_sort (\<lambda>a b. int (f b) - int (f a)) xs)"
  for f :: "'a \<Rightarrow> nat"
  by (induction xs) (auto simp: array_sort_def sorted_insert_sorted)

section \<open>Properties of the number formatting\<close>

lemma digit_char: "d < 10 \<Longrightarrow> is_decimal_digit (char_of (48 + d))" for d :: nat
proof -
  assume "d < 10"
  then have "(of_char (char_of (48 + d)) :: nat) = 48 + d" by simp
  then have "(of_char (char_of (48 + d)) :: int) = 48 + int d"
    by (metis of_nat_of_char of_nat_add of_nat_numeral)
  with \<open>d < 10\<close> show ?thesis by (simp add: is_decimal_digit_def)
qed

lemma show_nat_digits: "show_nat n \<noteq> [] \<and> list_all is_decimal_digit (show_nat n)"
proof (induction n rule: show_nat.induct)
  case (1 n)
  show ?case
  proof (cases "n < 10")
    case True
    then show ?thesis by (subst (1 2) show_nat.simps) (simp add: digit_char)
  next
    case False
    with 1 show ?thesis by (subst (1 2) show_nat.simps) (simp add: digit_char)
  qed
qed

lemma toFixed1_format: "one_decimal_percent (toFixed1 x @ ''%'')"
proof -
  define n where "n = nat \<lfloor>10 * x + 1 / 2\<rfloor>"
  have last: "show_nat (n mod 10) = [char_of (48 + n mod 10)]"
    by (subst show_nat.simps) simp
  have "rev (toFixed1 x @ ''%'') =
        CHR ''%'' # char_of (48 + n mod 10) # CHR ''.'' # rev (show_nat (n div 10))"
    by (simp add: toFixed1_def Let_def n_def[symmetric] last)
  then show ?thesis
    using show_nat_digits[of "n div 10"] digit_char[of "n mod 10"]
    by (simp add: one_decimal_percent_def)
qed

lemma show_nat_500: "show_nat 500 = ''500''"
  by code_simp

text \<open>
  \<open>ilog2\<close> is the binary exponent, so \<open>fl\<close> rounds a significand between
  \<open>2 ^ 52\<close> and \<open>2 ^ 53\<close>. The argument of \<open>toFixed\<close> in \<open>getCountriesByCount\<close> lies in
  the range that \<open>toFixed1\<close> models.
\<close>

lemma round_half_even_bounds:
  "\<lfloor>x\<rfloor> \<le> round_half_even x \<and> round_half_even x \<le> \<lfloor>x\<rfloor> + 1"
  by (simp add: round_half_even_def Let_def)

lemma ilog2_bounds:
  assumes "0 < x"
  shows "2 powi ilog2 x \<le> x \<and> x < 2 powi (ilog2 x + 1)"
proof -
  obtain a b where q: "quotient_of x = (a, b)" by (cases "quotient_of x")
  then have b: "0 < b" and x: "x = of_int a / of_int b"
    using quotient_of_denom_pos quotient_of_div by auto
  with assms have a: "0 < a" by (simp add: zero_less_divide_iff)
  define k where "k = bitlen a - bitlen b"
  have e: "ilog2 x = (if 2 powi k \<le> x then k else k - 1)"
    by (simp add: ilog2_def q k_def Let_def)
  have pa: "0 < bitlen a"
    using a floorlog_eq_zero_iff[of 2 "nat a"] by (simp add: bitlen_def)
  have pb: "0 < bitlen b"
    using b floorlog_eq_zero_iff[of 2 "nat b"] by (simp add: bitlen_def)
  have cast: "(of_int ((2::int) ^ n) :: rat) = 2 ^ n" for n by simp
  from bitlen_bounds[OF a] have "(of_int (2 ^ nat (bitlen a - 1)) :: rat) \<le> of_int a"
    and "(of_int a :: rat) < of_int (2 ^ nat (bitlen a))"
    by (simp_all only: of_int_le_iff of_int_less_iff)
  then have la: "(2::rat) ^ nat (bitlen a - 1) \<le> of_int a"
    and ua: "(of_int a :: rat) < 2 ^ nat (bitlen a)"
    by (simp_all only: cast)
  from bitlen_bounds[OF b] have "(of_int (2 ^ nat (bitlen b - 1)) :: rat) \<le> of_int b"
    and "(of_int b :: rat) < of_int (2 ^ nat (bitlen b))"
    by (simp_all only: of_int_le_iff of_int_less_iff)
  then have lb: "(2::rat) ^ nat (bitlen b - 1) \<le> of_int b"
    and ub: "(of_int b :: rat) < 2 ^ nat (bitlen b)"
    by (simp_all only: cast)
  have lower: "(2::rat) powi (k - 1) \<le> x"
  proof -
    have "(2::rat) powi (k - 1) = 2 powi (bitlen a - 1) / 2 powi (bitlen b)"
      by (simp add: k_def power_int_diff)
    also have "\<dots> = 2 ^ nat (bitlen a - 1) / 2 ^ nat (bitlen b)"
      using pa pb by (simp add: power_int_def)
    also have "\<dots> \<le> of_int a / of_int b"
      using la ub a b by (intro frac_le) simp_all
    finally show ?thesis by (simp add: x)
  qed
  have upper: "x < (2::rat) powi (k + 1)"
  proof -
    have "of_int a / of_int b < (2::rat) ^ nat (bitlen a) / 2 ^ nat (bitlen b - 1)"
      using ua lb a b by (intro frac_less) simp_all
    also have "\<dots> = 2 powi (bitlen a) / 2 powi (bitlen b - 1)"
      using pa pb by (simp add: power_int_def)
    also have "\<dots> = 2 powi (bitlen a - (bitlen b - 1))"
      by (rule power_int_diff[symmetric]) simp
    also have "bitlen a - (bitlen b - 1) = k + 1"
      by (simp add: k_def)
    finally show ?thesis by (simp add: x)
  qed
  show ?thesis
  proof (cases "2 powi k \<le> x")
    case True
    with e upper show ?thesis by simp
  next
    case False
    with e lower show ?thesis by simp
  qed
qed

lemma ilog2_unit_le:
  assumes "0 < x"
  shows "2 powi (ilog2 x - 52) \<le> x"
proof -
  have "(2::rat) powi (ilog2 x - 52) \<le> 2 powi ilog2 x"
    by (rule power_int_increasing) simp_all
  with ilog2_bounds[OF assms] show ?thesis by simp
qed

lemma fl_bounds:
  assumes "0 \<le> x"
  shows "0 \<le> fl x \<and> fl x \<le> 2 * x"
proof (cases "x = 0")
  case True
  then show ?thesis by (simp add: fl_def)
next
  case False
  with assms have pos: "0 < x" by simp
  define u :: rat where "u = 2 powi (ilog2 x - 52)"
  have u: "0 < u" by (simp add: u_def)
  have ux: "u \<le> x" unfolding u_def by (rule ilog2_unit_le[OF pos])
  have f: "fl x = of_int (round_half_even (x / u)) * u"
    using False by (simp add: fl_def u_def Let_def)
  have "0 \<le> x / u" using pos u by simp
  then have "0 \<le> \<lfloor>x / u\<rfloor>" by simp
  with round_half_even_bounds[of "x / u"] have "0 \<le> round_half_even (x / u)" by linarith
  then have lo: "(0::rat) \<le> of_int (round_half_even (x / u))" by simp
  have "(of_int (round_half_even (x / u)) :: rat) \<le> of_int (\<lfloor>x / u\<rfloor> + 1)"
    using round_half_even_bounds[of "x / u"] by (simp only: of_int_le_iff)
  also have "\<dots> \<le> x / u + 1" by simp
  finally have hi: "(of_int (round_half_even (x / u)) :: rat) \<le> x / u + 1" .
  from lo u have 1: "0 \<le> fl x" by (simp add: f)
  from hi u have "of_int (round_half_even (x / u)) * u \<le> (x / u + 1) * u"
    by (simp add: mult_right_mono)
  also have "\<dots> = x + u" using u by (simp add: algebra_simps)
  also have "\<dots> \<le> 2 * x" using ux by simp
  finally have "fl x \<le> 2 * x" by (simp add: f)
  with 1 show ?thesis by simp
qed

lemma percentage_argument_range:
  assumes "0 < t" "c \<le> t"
  shows "0 \<le> fl (fl (of_nat c / of_nat t) * 100) \<and> fl (fl (of_nat c / of_nat t) * 100) < 10 ^ 21"
proof -
  have q0: "(0::rat) \<le> of_nat c / of_nat t" by simp
  have "(of_nat c :: rat) / of_nat t \<le> 1" using assms by simp
  with fl_bounds[OF q0] have q: "0 \<le> fl (of_nat c / of_nat t)" "fl (of_nat c / of_nat t) \<le> 2"
    by auto
  then have p0: "0 \<le> fl (of_nat c / of_nat t) * 100" by simp
  from fl_bounds[OF p0] q show ?thesis by auto
qed

lemma emitted_percentage_argument_range:
  assumes "getCountriesByCount R = Inr out" "e \<in> set out"
  shows "0 \<le> fl (fl (of_nat (count e) / of_nat (length R)) * 100) \<and>
         fl (fl (of_nat (count e) / of_nat (length R)) * 100) < 10 ^ 21"
proof -
  from assms obtain g where g: "getStatsByFlag R = Inr g"
    and out: "out = array_sort (\<lambda>a b. int (count b) - int (count a))
                (map (\<lambda>(k, b). \<lparr>name = k, count = length b,
                                  percentage = make_percentage (length b) (length R)\<rparr>)
                   (object_entries g))"
    by (auto simp: getCountriesByCount_Inr)
  from assms(2) obtain k b where kb: "(k, b) \<in> set g" and c: "count e = length b"
    by (auto simp: out set_array_sort set_object_entries)
  from g have r: "reduce_group [] R = Inr g" by (simp add: getStatsByFlag_def)
  from reduce_group_nonempty[OF r kb] have "b \<noteq> []" .
  from kb have "length b \<in> set (map (\<lambda>(k, b). length b) g)" by force
  then have "length b \<le> bucket_total g"
    unfolding bucket_total_def by (rule member_le_sum_list) simp_all
  then have le: "count e \<le> length R" by (simp add: c getStatsByFlag_total[OF g])
  with \<open>b \<noteq> []\<close> c have "0 < length R" by (cases R) auto
  from percentage_argument_range[OF this le] show ?thesis .
qed

section \<open>Properties of \<open>parseInt\<close>\<close>

text \<open>
  Integers of magnitude up to \<open>2 ^ 53\<close> are doubles, and \<open>parseInt\<close> reads the decimal
  numeral of such an integer as that integer, also when a fraction or an exponent part
  follows it: it reads the leading integer only. Beyond \<open>2 ^ 53\<close> it rounds.
\<close>

lemma round_half_even_int: "round_half_even (of_int m) = m"
  by (simp add: round_half_even_def Let_def)

lemma fl_int_exact:
  assumes "0 < n" "n \<le> 2 ^ 53"
  shows "fl (of_int n) = of_int n"
proof -
  define e where "e = ilog2 (of_int n)"
  have pos: "(0::rat) < of_int n" using assms by simp
  from ilog2_bounds[OF pos] have lo: "2 powi e \<le> (of_int n :: rat)"
    and hi: "(of_int n :: rat) < 2 powi (e + 1)" by (simp_all add: e_def)
  have e0: "0 \<le> e"
  proof (rule ccontr)
    assume "\<not> 0 \<le> e"
    then have "e + 1 \<le> 0" by simp
    then have "(2::rat) powi (e + 1) \<le> 2 powi 0"
      by (intro power_int_increasing) simp_all
    with hi have "(of_int n :: rat) < 1" by simp
    with assms show False by simp
  qed
  have e53: "e \<le> 53"
  proof (rule ccontr)
    assume "\<not> e \<le> 53"
    then have "54 \<le> e" by simp
    then have "(2::rat) powi 54 \<le> 2 powi e"
      by (intro power_int_increasing) simp_all
    with lo have "(2::rat) ^ 54 \<le> of_int n" by simp
    moreover have "(of_int n :: rat) \<le> 2 ^ 53"
      using assms(2) by (metis of_int_le_iff of_int_numeral of_int_power)
    ultimately show False by simp
  qed
  have n0: "(of_int n :: rat) \<noteq> 0" using assms by simp
  have f: "fl (of_int n) =
      of_int (round_half_even (of_int n / 2 powi (e - 52))) * 2 powi (e - 52)"
    using n0 by (simp add: fl_def Let_def e_def)
  show ?thesis
  proof (cases "e \<le> 52")
    case True
    define k where "k = nat (52 - e)"
    have "(2::rat) powi (e - 52) = 1 / 2 ^ k"
      using True by (simp add: k_def power_int_def field_simps)
    then have u: "(of_int n :: rat) / 2 powi (e - 52) = of_int (n * 2 ^ k)" by simp
    show ?thesis
      unfolding f u round_half_even_int
      by (simp add: \<open>(2::rat) powi (e - 52) = 1 / 2 ^ k\<close>)
  next
    case False
    with e53 have e: "e = 53" by simp
    with lo have "(2::rat) ^ 53 \<le> of_int n" by simp
    then have "(2::int) ^ 53 \<le> n"
      by (metis of_int_le_iff of_int_numeral of_int_power)
    with assms(2) have n: "n = 2 ^ 53" by simp
    have u: "(of_int n :: rat) / 2 powi (e - 52) = of_int (2 ^ 52)"
      by (simp add: e n)
    show ?thesis
      unfolding f u round_half_even_int by (simp add: e n)
  qed
qed

lemma number_of_int_exact:
  assumes "\<bar>z\<bar> \<le> 2 ^ 53"
  shows "number_of_int z = Num (of_int z)"
proof -
  have small: "\<not> (2::rat) ^ 1024 \<le> of_int m" if "m \<le> 2 ^ 53" for m :: int
  proof -
    from that have "(of_int m :: rat) \<le> of_int (2 ^ 53)" by (simp only: of_int_le_iff)
    then have "(of_int m :: rat) \<le> 2 ^ 53" by simp
    moreover have "(2::rat) ^ 53 < 2 ^ 1024" by simp
    ultimately show ?thesis by linarith
  qed
  consider "z = 0" | "0 < z" | "z < 0" by linarith
  then show ?thesis
  proof cases
    case 1
    then show ?thesis by (simp add: number_of_int_def)
  next
    case 2
    with assms have le: "z \<le> 2 ^ 53" by simp
    have f: "fl (of_int \<bar>z\<bar>) = of_int z"
      using fl_int_exact[OF 2 le] 2 by simp
    show ?thesis
      unfolding number_of_int_def Let_def f using 2 small[OF le] by simp
  next
    case 3
    with assms have le: "- z \<le> 2 ^ 53" by simp
    from 3 have p: "0 < - z" by simp
    have f: "fl (of_int \<bar>z\<bar>) = of_int (- z)"
      using fl_int_exact[OF p le] 3 by simp
    show ?thesis
      unfolding number_of_int_def Let_def f using 3 small[OF le] by simp
  qed
qed

lemma digit_value_char: "d < 10 \<Longrightarrow> digit_value (char_of (48 + d)) = Some (int d)" for d :: nat
proof -
  assume d: "d < 10"
  then have "(of_char (char_of (48 + d)) :: nat) = 48 + d" by simp
  then have "(of_char (char_of (48 + d)) :: int) = 48 + int d"
    by (metis of_nat_of_char of_nat_add of_nat_numeral)
  with d show ?thesis by (simp add: digit_value_def Let_def)
qed

lemma radix_value_snoc:
  "radix_value r (xs @ [c]) = radix_value r xs * r + the (digit_value c)"
  by (simp add: radix_value_def)

lemma radix_value_show_nat: "radix_value 10 (show_nat n) = int n"
proof (induction n rule: show_nat.induct)
  case (1 n)
  show ?case
  proof (cases "n < 10")
    case True
    then show ?thesis
      by (subst show_nat.simps) (simp add: radix_value_def digit_value_char)
  next
    case False
    have "radix_value 10 (show_nat n) =
        radix_value 10 (show_nat (n div 10)) * 10 + the (digit_value (char_of (48 + n mod 10)))"
      using False by (subst show_nat.simps) (simp add: radix_value_snoc)
    also have "\<dots> = int (n div 10) * 10 + int (n mod 10)"
      using 1[OF False] by (simp add: digit_value_char)
    also have "\<dots> = int n" by (simp add: zdiv_int zmod_int)
    finally show ?thesis .
  qed
qed

lemma decimal_digit_facts:
  assumes "is_decimal_digit c"
  shows "is_radix_digit 10 c" "\<not> is_white_space c" "c \<noteq> CHR ''-''" "c \<noteq> CHR ''+''"
    "c \<noteq> CHR ''x''" "c \<noteq> CHR ''X''"
  using assms
  by (auto simp: is_decimal_digit_def is_radix_digit_def digit_value_def is_white_space_def Let_def)

lemma tail_char_facts:
  assumes "c = CHR ''.'' \<or> c = CHR ''e'' \<or> c = CHR ''E''"
  shows "\<not> is_radix_digit 10 c" "c \<noteq> CHR ''x''" "c \<noteq> CHR ''X''"
  using assms by (auto simp: is_radix_digit_def digit_value_def Let_def)

lemma digits_then_tail_parse:
  assumes "ds \<noteq> []" "list_all is_decimal_digit ds"
    and "rest = [] \<or> hd rest = CHR ''.'' \<or> hd rest = CHR ''e'' \<or> hd rest = CHR ''E''"
  shows "strip_prefix_parse sign (ds @ rest) = number_of_int (sign * radix_value 10 ds)"
proof -
  have all: "\<forall>c \<in> set ds. is_radix_digit 10 c"
    using assms(2) by (auto simp: list_all_iff decimal_digit_facts)
  have "takeWhile (is_radix_digit 10) rest = []"
    using assms(3) tail_char_facts(1)[of "hd rest"] by (cases rest) auto
  with all have tw: "takeWhile (is_radix_digit 10) (ds @ rest) = ds"
    by (simp add: takeWhile_append2)
  obtain a as where ds: "ds = a # as" using assms(1) by (cases ds) auto
  have nx: "take 2 (ds @ rest) \<noteq> ''0x'' \<and> take 2 (ds @ rest) \<noteq> ''0X''"
  proof (cases as)
    case Nil
    show ?thesis
    proof (cases rest)
      case Nil
      with ds \<open>as = []\<close> show ?thesis by simp
    next
      case (Cons r rs)
      with assms(3) have "r = CHR ''.'' \<or> r = CHR ''e'' \<or> r = CHR ''E''" by simp
      from tail_char_facts(2,3)[OF this] Cons ds \<open>as = []\<close> show ?thesis by simp
    qed
  next
    case (Cons b bs)
    with ds assms(2) have "is_decimal_digit b" by simp
    from decimal_digit_facts(5,6)[OF this] Cons ds show ?thesis by simp
  qed
  show ?thesis
    using nx assms(1) by (simp add: strip_prefix_parse_def parse_digits_def Let_def tw)
qed

lemma parseInt_digits_then_tail:
  assumes "ds \<noteq> []" "list_all is_decimal_digit ds"
    and "rest = [] \<or> hd rest = CHR ''.'' \<or> hd rest = CHR ''e'' \<or> hd rest = CHR ''E''"
  shows "parseInt (ds @ rest) = number_of_int (radix_value 10 ds)"
    and "parseInt (CHR ''-'' # ds @ rest) = number_of_int (- radix_value 10 ds)"
proof -
  obtain a as where ds: "ds = a # as" using assms(1) by (cases ds) auto
  with assms(2) have a: "is_decimal_digit a" by simp
  note fa = decimal_digit_facts[OF a]
  have "dropWhile is_white_space (ds @ rest) = ds @ rest" using fa(2) ds by simp
  then show "parseInt (ds @ rest) = number_of_int (radix_value 10 ds)"
    using fa(3,4) ds digits_then_tail_parse[OF assms, of 1] by (simp add: parseInt_def Let_def)
  have "\<not> is_white_space CHR ''-''" by (simp add: is_white_space_def)
  then show "parseInt (CHR ''-'' # ds @ rest) = number_of_int (- radix_value 10 ds)"
    using digits_then_tail_parse[OF assms, of "- 1"] by (simp add: parseInt_def Let_def)
qed

lemma parseInt_show_int_tail:
  assumes "\<bar>n\<bar> \<le> 2 ^ 53"
    and "rest = [] \<or> hd rest = CHR ''.'' \<or> hd rest = CHR ''e'' \<or> hd rest = CHR ''E''"
  shows "parseInt (show_int n @ rest) = Num (of_int n)"
proof -
  note d = show_nat_digits
  show ?thesis
  proof (cases "n < 0")
    case True
    have "parseInt (show_int n @ rest) =
        number_of_int (- radix_value 10 (show_nat (nat (- n))))"
      using True parseInt_digits_then_tail(2)[OF _ _ assms(2), of "show_nat (nat (- n))"]
        d[of "nat (- n)"]
      by (simp add: show_int_def)
    also have "\<dots> = number_of_int n" using True by (simp add: radix_value_show_nat)
    also have "\<dots> = Num (of_int n)" by (rule number_of_int_exact[OF assms(1)])
    finally show ?thesis .
  next
    case False
    have "parseInt (show_int n @ rest) = number_of_int (radix_value 10 (show_nat (nat n)))"
      using False parseInt_digits_then_tail(1)[OF _ _ assms(2), of "show_nat (nat n)"]
        d[of "nat n"]
      by (simp add: show_int_def)
    also have "\<dots> = number_of_int n" using False by (simp add: radix_value_show_nat)
    also have "\<dots> = Num (of_int n)" by (rule number_of_int_exact[OF assms(1)])
    finally show ?thesis .
  qed
qed

lemma parseInt_show_int:
  assumes "\<bar>n\<bar> \<le> 2 ^ 53"
  shows "parseInt (show_int n) = Num (of_int n)"
  using parseInt_show_int_tail[OF assms, of "[]"] by simp

lemma show_int_nonempty: "show_int n \<noteq> []"
  using show_nat_digits by (simp add: show_int_def)

lemma parseInt_rounds: "parseInt ''9007199254740993'' = Num 9007199254740992"
  by code_simp

lemma parseInt_exponent: "parseInt ''1e3'' = Num 1"
  by code_simp

text \<open>
  \<open>handleSearch\<close> on its own, for an identifier from which \<open>parseInt\<close> reads no number:
  no record matches.
\<close>

lemma search_filter_unparsable:
  "uid \<noteq> [] \<Longrightarrow> parseInt uid = NaN \<Longrightarrow> search_filter uid ty dr R = []"
  by (simp add: search_filter_eq strict_eq_def)

text \<open>The identifier field delivers nothing but valid floating-point numbers.\<close>

lemma number_input_value_cases:
  "number_input_value raw = [] \<or> valid_floating_point_number (number_input_value raw)"
  by (simp add: number_input_value_def)

section \<open>Evaluations on the sample data\<close>

lemma example_ranking:
  "getCountriesByCount example_stats =
     Inr [\<lparr>name = ''FR'', count = 2, percentage = ''66.7%''\<rparr>,
          \<lparr>name = ''DE'', count = 1, percentage = ''33.3%''\<rparr>]"
  by code_simp

lemma percentage_2_3: "make_percentage (Suc (Suc 0)) (Suc (Suc (Suc 0))) = ''66.7%''"
  by code_simp

lemma percentage_1_3: "make_percentage (Suc 0) (Suc (Suc (Suc 0))) = ''33.3%''"
  by code_simp

lemma percentage_1_1: "make_percentage (Suc 0) (Suc 0) = ''100.0%''"
  by code_simp

lemma not_index_FR: "\<not> is_array_index ''FR''"
  by code_simp

lemma not_index_DE: "\<not> is_array_index ''DE''"
  by code_simp

lemma not_index_sentinel: "\<not> is_array_index ''Tous drapeaux''"
  by code_simp

lemma sentinel_not_inherited: "''Tous drapeaux'' \<notin> set object_prototype_keys"
  by (simp add: object_prototype_keys_def)

lemma FR_not_inherited: "''FR'' \<notin> set object_prototype_keys"
  by (simp add: object_prototype_keys_def)

lemma DE_not_inherited: "''DE'' \<notin> set object_prototype_keys"
  by (simp add: object_prototype_keys_def)

section \<open>The ranking of a record set without inherited flag names\<close>

text \<open>
  Every ranking that \<open>getCountriesByCount\<close> returns has counts that sum to the number
  of records and is non-increasing in count; and a ranking is returned for every record
  set in which no flag names a property of \<open>Object.prototype\<close>.
\<close>

lemma returned_counts_sum:
  "getCountriesByCount R = Inr out \<Longrightarrow> sum_list (map count out) = length R"
proof -
  assume "getCountriesByCount R = Inr out"
  then obtain g where g: "getStatsByFlag R = Inr g"
    and out: "out = array_sort (\<lambda>a b. int (count b) - int (count a))
                (map (\<lambda>(k, b). \<lparr>name = k, count = length b,
                                  percentage = make_percentage (length b) (length R)\<rparr>)
                   (object_entries g))"
    by (auto simp: getCountriesByCount_Inr)
  have "sum_list (map count out) = sum_list (map (\<lambda>x. length (snd x)) (object_entries g))"
    by (simp add: out sum_list_array_sort comp_def case_prod_beta)
  also have "\<dots> = bucket_total g"
    by (simp add: sum_list_object_entries bucket_total_def case_prod_unfold)
  also have "\<dots> = length R" by (rule getStatsByFlag_total[OF g])
  finally show ?thesis .
qed

lemma returned_ranking_sorted:
  "getCountriesByCount R = Inr out \<Longrightarrow> sorted_wrt (\<lambda>a b. count b \<le> count a) out"
proof -
  assume "getCountriesByCount R = Inr out"
  then obtain xs where "out = array_sort (\<lambda>a b. int (count b) - int (count a)) xs"
    by (auto simp: getCountriesByCount_Inr)
  then show ?thesis by (simp add: sorted_array_sort)
qed

lemma ranking_counts_sum_total:
  assumes "\<forall>s \<in> set R. flagName s \<notin> set object_prototype_keys"
  shows "\<exists>out. getCountriesByCount R = Inr out \<and> sum_list (map count out) = length R"
proof -
  from assms obtain out where "getCountriesByCount R = Inr out"
    using getCountriesByCount_returns_iff[of R] by blast
  with returned_counts_sum[OF this] show ?thesis by blast
qed

lemma ranking_sorted_total:
  assumes "\<forall>s \<in> set R. flagName s \<notin> set object_prototype_keys"
  shows "\<exists>out. getCountriesByCount R = Inr out \<and>
           (\<forall>i. Suc i < length out \<longrightarrow> count (out ! Suc i) \<le> count (out ! i))"
proof -
  from assms obtain out where out: "getCountriesByCount R = Inr out"
    using getCountriesByCount_returns_iff[of R] by blast
  have "count (out ! Suc i) \<le> count (out ! i)" if "Suc i < length out" for i
    using sorted_wrt_nth_less[OF returned_ranking_sorted[OF out], of i "Suc i"] that by simp
  with out show ?thesis by blast
qed

lemma unsorted_entries_are_sorted:
  "getCountriesByCount
     [mk_stat ''a'' ''erreur'' 5 (Some ''DE''), mk_stat ''b'' ''passer'' 6 (Some ''FR''),
      mk_stat ''c'' ''erreur'' 5 (Some ''FR'')] =
   Inr [\<lparr>name = ''FR'', count = 2, percentage = ''66.7%''\<rparr>,
        \<lparr>name = ''DE'', count = 1, percentage = ''33.3%''\<rparr>]"
  by code_simp

section \<open>The claims of the specification\<close>

text \<open>
  C1. For every loaded record set and every criteria value, the result of \<open>handleSearch\<close>
  is a subsequence of the record set, and every element of it satisfies every criterion
  that is present (a non-empty criterion string), all of them together: its \<open>user_id\<close>
  equals, as a number, the number read from the identifier; its \<open>type\<close> is the type
  string and its \<open>data.drapeau\<close> is the flag string, both compared exactly. Conversely
  every record that satisfies all present criteria is in the result. When the identifier
  is the decimal numeral of an integer \<open>n\<close> of magnitude up to \<open>2 ^ 53\<close>, alone or followed
  by a fraction or an exponent part, the number read is \<open>n\<close>: the result holds exactly
  the records with \<open>user_id\<close> \<open>n\<close> that meet the other criteria.
\<close>

theorem handleSearch_sound:
  "subseq (filteredStats (handleSearch st)) (allStats st) \<and>
   (\<forall>stat \<in> set (filteredStats (handleSearch st)).
      (userId st \<noteq> [] \<longrightarrow> user_id stat = parseInt (userId st) \<and> user_id stat \<noteq> NaN) \<and>
      (type_st st \<noteq> [] \<longrightarrow> type stat = type_st st) \<and>
      (drapeau_st st \<noteq> [] \<longrightarrow> drapeau (data stat) = Some (drapeau_st st))) \<and>
   (\<forall>stat \<in> set (allStats st).
      (userId st \<noteq> [] \<longrightarrow> user_id stat = parseInt (userId st) \<and> user_id stat \<noteq> NaN) \<and>
      (type_st st \<noteq> [] \<longrightarrow> type stat = type_st st) \<and>
      (drapeau_st st \<noteq> [] \<longrightarrow> drapeau (data stat) = Some (drapeau_st st)) \<longrightarrow>
      stat \<in> set (filteredStats (handleSearch st))) \<and>
   (\<bar>n\<bar> \<le> 2 ^ 53 \<and> userId st = show_int n @ rest \<and>
    (rest = [] \<or> hd rest = CHR ''.'' \<or> hd rest = CHR ''e'' \<or> hd rest = CHR ''E'') \<longrightarrow>
      (\<forall>stat \<in> set (allStats st).
         stat \<in> set (filteredStats (handleSearch st)) \<longleftrightarrow>
         user_id stat = Num (of_int n) \<and>
         (type_st st \<noteq> [] \<longrightarrow> type stat = type_st st) \<and>
         (drapeau_st st \<noteq> [] \<longrightarrow> drapeau (data stat) = Some (drapeau_st st))))"
proof -
  have eq: "strict_eq a b \<longleftrightarrow> a = b \<and> a \<noteq> NaN" for a b
    by (auto simp: strict_eq_def)
  have general:
    "subseq (filteredStats (handleSearch st)) (allStats st) \<and>
     (\<forall>stat \<in> set (filteredStats (handleSearch st)).
        (userId st \<noteq> [] \<longrightarrow> user_id stat = parseInt (userId st) \<and> user_id stat \<noteq> NaN) \<and>
        (type_st st \<noteq> [] \<longrightarrow> type stat = type_st st) \<and>
        (drapeau_st st \<noteq> [] \<longrightarrow> drapeau (data stat) = Some (drapeau_st st))) \<and>
     (\<forall>stat \<in> set (allStats st).
        (userId st \<noteq> [] \<longrightarrow> user_id stat = parseInt (userId st) \<and> user_id stat \<noteq> NaN) \<and>
        (type_st st \<noteq> [] \<longrightarrow> type stat = type_st st) \<and>
        (drapeau_st st \<noteq> [] \<longrightarrow> drapeau (data stat) = Some (drapeau_st st)) \<longrightarrow>
        stat \<in> set (filteredStats (handleSearch st)))"
    by (auto simp: handleSearch_def search_filter_eq eq)
  have numeral:
    "\<forall>stat \<in> set (allStats st).
       stat \<in> set (filteredStats (handleSearch st)) \<longleftrightarrow>
       user_id stat = Num (of_int n) \<and>
       (type_st st \<noteq> [] \<longrightarrow> type stat = type_st st) \<and>
       (drapeau_st st \<noteq> [] \<longrightarrow> drapeau (data stat) = Some (drapeau_st st))"
    if n: "\<bar>n\<bar> \<le> 2 ^ 53" and u: "userId st = show_int n @ rest"
      and r: "rest = [] \<or> hd rest = CHR ''.'' \<or> hd rest = CHR ''e'' \<or> hd rest = CHR ''E''"
  proof -
    have p: "parseInt (userId st) = Num (of_int n)"
      unfolding u by (rule parseInt_show_int_tail[OF n r])
    have ne: "userId st \<noteq> []" unfolding u using show_int_nonempty[of n] by simp
    show ?thesis
      using ne by (auto simp: handleSearch_def search_filter_eq eq p)
  qed
  from general numeral show ?thesis by blast
qed

lemma show_int_5: "show_int 5 = ''5''"
  by code_simp

theorem handleSearch_sound_witness:
  "\<bar>5\<bar> \<le> (2::int) ^ 53 \<and>
   userId (example_state\<lparr>userId := ''5'', type_st := ''erreur''\<rparr>) = show_int 5 \<and>
   filteredStats (handleSearch (example_state\<lparr>userId := ''5'', type_st := ''erreur''\<rparr>)) =
     [mk_stat ''a'' ''erreur'' 5 (Some ''FR''), mk_stat ''c'' ''erreur'' 5 (Some ''DE'')] \<and>
   subseq (filteredStats (handleSearch (example_state\<lparr>userId := ''5'', type_st := ''erreur''\<rparr>)))
     (allStats (example_state\<lparr>userId := ''5'', type_st := ''erreur''\<rparr>)) \<and>
   mk_stat ''b'' ''passer'' 6 (Some ''FR'') \<in>
     set (allStats (example_state\<lparr>userId := ''5'', type_st := ''erreur''\<rparr>)) \<and>
   mk_stat ''b'' ''passer'' 6 (Some ''FR'') \<notin>
     set (filteredStats (handleSearch (example_state\<lparr>userId := ''5'', type_st := ''erreur''\<rparr>))) \<and>
   user_id (mk_stat ''a'' ''erreur'' 5 (Some ''FR'')) = Num 5"
proof -
  let ?st = "example_state\<lparr>userId := ''5'', type_st := ''erreur''\<rparr>"
  have n: "\<bar>5\<bar> \<le> (2::int) ^ 53" by simp
  have u: "userId ?st = show_int 5" by (simp add: show_int_5)
  have all: "allStats ?st = example_stats"
    by (simp add: example_state_def)
  note t = handleSearch_sound[where st = ?st and n = 5 and rest = "[]"]
  from t have sub: "subseq (filteredStats (handleSearch ?st)) (allStats ?st)"
    by (rule conjunct1)
  have u': "userId ?st = show_int 5 @ []" using u by simp
  from t n u' have iff: "\<forall>stat \<in> set (allStats ?st).
         stat \<in> set (filteredStats (handleSearch ?st)) \<longleftrightarrow>
         user_id stat = Num (of_int 5) \<and>
         (type_st ?st \<noteq> [] \<longrightarrow> type stat = type_st ?st) \<and>
         (drapeau_st ?st \<noteq> [] \<longrightarrow> drapeau (data stat) = Some (drapeau_st ?st))"
    by blast
  have b_in: "mk_stat ''b'' ''passer'' 6 (Some ''FR'') \<in> set (allStats ?st)"
    by (simp add: all example_stats_def)
  with iff have b_out: "mk_stat ''b'' ''passer'' 6 (Some ''FR'') \<notin>
      set (filteredStats (handleSearch ?st))"
    by (simp add: mk_stat_def)
  have out: "filteredStats (handleSearch ?st) =
      [mk_stat ''a'' ''erreur'' 5 (Some ''FR''), mk_stat ''c'' ''erreur'' 5 (Some ''DE'')]"
    by (simp add: handleSearch_def search_filter_eq example_state_def initial_state_def
        example_stats_def mk_stat_def parseInt_5 strict_eq_def)
  have a: "user_id (mk_stat ''a'' ''erreur'' 5 (Some ''FR'')) = Num 5"
    by (simp add: mk_stat_def)
  from n u out sub b_in b_out a show ?thesis by (intro conjI)
qed

text \<open>
  C2. With the three criteria empty the filter returns the record set unchanged.
\<close>

theorem search_without_criteria_identity:
  "search_filter [] [] [] R = R \<and>
   filteredStats (handleSearch (st\<lparr>userId := [], type_st := [], drapeau_st := []\<rparr>)) = allStats st"
  by (simp add: handleSearch_def search_filter_def)

theorem search_without_criteria_identity_witness:
  "filteredStats (handleSearch example_state) = example_stats"
  using search_without_criteria_identity[where R = example_stats and st = example_state]
  by (simp add: example_state_def initial_state_def handleSearch_def)

text \<open>
  C3. For every record set \<open>R\<close>, the counts of the ranking of \<open>R\<close> sum to the length of
  \<open>R\<close>. The code misses this on a record whose flag is \<open>constructor\<close>: the accumulator
  \<open>{}\<close> of \<open>getStatsByFlag\<close> inherits a property of that name, no bucket is created,
  \<open>push\<close> is called on the inherited function, and \<open>getCountriesByCount\<close> throws
  instead of returning a ranking with count 1.
\<close>

theorem counts_sum_fails_on_constructor:
  "getCountriesByCount [mk_stat ''a'' ''erreur'' 5 (Some ''constructor'')] = Inl TypeError \<and>
   length [mk_stat ''a'' ''erreur'' 5 (Some ''constructor'')] = 1"
  using inherited_flag_throws by simp

text \<open>
  C4. For every record set, the ranking is non-increasing in count. The code misses
  this on the records with flags \<open>DE\<close>, \<open>FR\<close>, \<open>FR\<close>, \<open>toString\<close>: by the same defect
  of \<open>getStatsByFlag\<close>, \<open>getCountriesByCount\<close> throws instead of returning the
  ranking \<open>FR\<close> 2, \<open>DE\<close> 1, \<open>toString\<close> 1.
\<close>

theorem ranking_fails_on_toString:
  "getCountriesByCount
     [mk_stat ''a'' ''erreur'' 5 (Some ''DE''), mk_stat ''b'' ''passer'' 6 (Some ''FR''),
      mk_stat ''c'' ''erreur'' 5 (Some ''FR''), mk_stat ''d'' ''indice'' 7 (Some ''toString'')] =
   Inl TypeError"
  by code_simp

text \<open>
  C5. For every record set and every criteria value whose identifier is a non-empty,
  non-numeric text (not a valid floating-point number), the search behaves as with no
  identifier: the identifier field hands the empty string to \<open>setUserId\<close>, and the
  result is the record set filtered by the type and flag criteria alone, every record
  passing on the identifier; no error and no empty match comes of the malformed text.
\<close>

theorem malformed_identifier_treated_as_absent:
  "raw \<noteq> [] \<Longrightarrow> \<not> valid_floating_point_number raw \<Longrightarrow>
   handleSearch (userId_onChange raw st) = handleSearch (st\<lparr>userId := []\<rparr>) \<and>
   filteredStats (handleSearch (userId_onChange raw st)) =
     filter (\<lambda>stat. (type_st st = [] \<or> type stat = type_st st) \<and>
                     (drapeau_st st = [] \<or> drapeau (data stat) = Some (drapeau_st st)))
       (allStats st)"
  by (simp add: userId_onChange_def number_input_value_def handleSearch_def search_filter_eq)

lemma abc_not_numeric: "\<not> valid_floating_point_number ''abc''"
  by code_simp

theorem malformed_identifier_treated_as_absent_witness:
  "''abc'' \<noteq> [] \<and> \<not> valid_floating_point_number ''abc'' \<and>
   filteredStats (handleSearch (userId_onChange ''abc'' example_state)) = example_stats"
proof -
  have a: "''abc'' \<noteq> []" by simp
  from malformed_identifier_treated_as_absent[OF a abc_not_numeric, where st = example_state]
  have "filteredStats (handleSearch (userId_onChange ''abc'' example_state)) =
     filter (\<lambda>stat. (type_st example_state = [] \<or> type stat = type_st example_state) \<and>
                     (drapeau_st example_state = [] \<or>
                      drapeau (data stat) = Some (drapeau_st example_state)))
       (allStats example_state)"
    by (rule conjunct2)
  then have "filteredStats (handleSearch (userId_onChange ''abc'' example_state)) =
     example_stats"
    by (simp add: example_state_def initial_state_def)
  with a abc_not_numeric show ?thesis by (intro conjI)
qed

text \<open>
  C6. For three records with the flags \<open>FR\<close>, \<open>FR\<close>, \<open>DE\<close> and empty criteria, the search
  followed by \<open>getCountriesByCount\<close> yields exactly \<open>FR\<close> with count 2 and \<open>66.7%\<close>,
  then \<open>DE\<close> with count 1 and \<open>33.3%\<close>.
\<close>

theorem scenario_FR_FR_DE:
  "drapeau (data a) = Some ''FR'' \<Longrightarrow> drapeau (data b) = Some ''FR'' \<Longrightarrow>
   drapeau (data c) = Some ''DE'' \<Longrightarrow>
   getCountriesByCount
     (filteredStats (handleSearch
        (st\<lparr>allStats := [a, b, c], userId := [], type_st := [], drapeau_st := []\<rparr>))) =
   Inr [\<lparr>name = ''FR'', count = 2, percentage = ''66.7%''\<rparr>,
        \<lparr>name = ''DE'', count = 1, percentage = ''33.3%''\<rparr>]"
proof -
  assume a: "drapeau (data a) = Some ''FR''" and b: "drapeau (data b) = Some ''FR''"
    and c: "drapeau (data c) = Some ''DE''"
  have fa: "flagName a = ''FR''" and fb: "flagName b = ''FR''" and fc: "flagName c = ''DE''"
    using a b c by (simp_all add: flagName_def)
  have g: "getStatsByFlag [a, b, c] = Inr [(''FR'', [a, b]), (''DE'', [c])]"
    by (simp add: getStatsByFlag_def group_step_eq fa fb fc FR_not_inherited
        DE_not_inherited set_property_def)
  have e: "object_entries [(''FR'', [a, b]), (''DE'', [c])] = [(''FR'', [a, b]), (''DE'', [c])]"
    by (simp add: object_entries_def not_index_FR not_index_DE)
  have "getCountriesByCount [a, b, c] =
    Inr [\<lparr>name = ''FR'', count = 2, percentage = ''66.7%''\<rparr>,
         \<lparr>name = ''DE'', count = 1, percentage = ''33.3%''\<rparr>]"
    by (simp add: getCountriesByCount_def g e array_sort_def percentage_2_3 percentage_1_3)
  then show ?thesis
    by (simp add: handleSearch_def search_filter_def)
qed

theorem scenario_FR_FR_DE_witness:
  "getCountriesByCount
     (filteredStats (handleSearch
        (example_state\<lparr>allStats := example_stats, userId := [], type_st := [], drapeau_st := []\<rparr>))) =
   Inr [\<lparr>name = ''FR'', count = 2, percentage = ''66.7%''\<rparr>,
        \<lparr>name = ''DE'', count = 1, percentage = ''33.3%''\<rparr>]"
proof -
  have a: "drapeau (data (mk_stat ''a'' ''erreur'' 5 (Some ''FR''))) = Some ''FR''"
    and b: "drapeau (data (mk_stat ''b'' ''passer'' 6 (Some ''FR''))) = Some ''FR''"
    and c: "drapeau (data (mk_stat ''c'' ''erreur'' 5 (Some ''DE''))) = Some ''DE''"
    by (simp_all add: mk_stat_def)
  from scenario_FR_FR_DE[OF a b c, where st = example_state]
  show ?thesis by (simp add: example_stats_def)
qed

text \<open>
  C7. A single record without a flag value gives exactly one entry, named by the sentinel
  \<open>Tous drapeaux\<close>, with count 1 and \<open>100.0%\<close>. In general the grouping has one
  bucket per name, and every record without a flag value (\<open>undefined\<close> or empty) is in
  the bucket of the sentinel.
\<close>

theorem missing_flag_sentinel_bucket:
  "(drapeau (data stat) = None \<or> drapeau (data stat) = Some [] \<longrightarrow>
      getCountriesByCount [stat] =
        Inr [\<lparr>name = ''Tous drapeaux'', count = 1, percentage = ''100.0%''\<rparr>]) \<and>
   (getStatsByFlag R = Inr g \<longrightarrow>
      distinct (map fst g) \<and>
      (\<forall>s \<in> set R. drapeau (data s) = None \<or> drapeau (data s) = Some [] \<longrightarrow>
         (\<exists>bucket. (''Tous drapeaux'', bucket) \<in> set g \<and> s \<in> set bucket)))"
proof (intro conjI impI)
  assume n: "drapeau (data stat) = None \<or> drapeau (data stat) = Some []"
  then have f: "flagName stat = ''Tous drapeaux''" by (auto simp: flagName_def)
  have g: "getStatsByFlag [stat] = Inr [(''Tous drapeaux'', [stat])]"
    by (simp add: getStatsByFlag_def group_step_eq f sentinel_not_inherited)
  have e: "object_entries [(''Tous drapeaux'', [stat])] = [(''Tous drapeaux'', [stat])]"
    by (simp add: object_entries_def not_index_sentinel)
  show "getCountriesByCount [stat] =
        Inr [\<lparr>name = ''Tous drapeaux'', count = 1, percentage = ''100.0%''\<rparr>]"
    by (simp add: getCountriesByCount_def g e array_sort_def percentage_1_1)
next
  assume g: "getStatsByFlag R = Inr g"
  then show "distinct (map fst g)"
    using reduce_group_distinct[of "[]" R g] by (simp add: getStatsByFlag_def)
next
  assume g: "getStatsByFlag R = Inr g"
  then have r: "reduce_group [] R = Inr g" by (simp add: getStatsByFlag_def)
  show "\<forall>s \<in> set R. drapeau (data s) = None \<or> drapeau (data s) = Some [] \<longrightarrow>
         (\<exists>bucket. (''Tous drapeaux'', bucket) \<in> set g \<and> s \<in> set bucket)"
  proof (intro ballI impI)
    fix s assume s: "s \<in> set R" and "drapeau (data s) = None \<or> drapeau (data s) = Some []"
    then have f: "flagName s = ''Tous drapeaux''" by (auto simp: flagName_def)
    with s have "''Tous drapeaux'' \<in> flagName ` set R" by force
    with reduce_group_map_of[OF r, of "''Tous drapeaux''"]
    have m: "map_of g ''Tous drapeaux'' = Some (filter (\<lambda>s. flagName s = ''Tous drapeaux'') R)"
      by simp
    from map_of_SomeD[OF m] s f
    show "\<exists>bucket. (''Tous drapeaux'', bucket) \<in> set g \<and> s \<in> set bucket" by auto
  qed
qed

theorem missing_flag_sentinel_bucket_witness:
  "getCountriesByCount [mk_stat ''a'' ''erreur'' 5 None] =
     Inr [\<lparr>name = ''Tous drapeaux'', count = 1, percentage = ''100.0%''\<rparr>] \<and>
   getStatsByFlag [mk_stat ''a'' ''erreur'' 5 None, mk_stat ''b'' ''passer'' 6 (Some ''FR''),
                   mk_stat ''c'' ''indice'' 7 (Some [])] =
     Inr [(''Tous drapeaux'', [mk_stat ''a'' ''erreur'' 5 None, mk_stat ''c'' ''indice'' 7 (Some [])]),
          (''FR'', [mk_stat ''b'' ''passer'' 6 (Some ''FR'')])] \<and>
   (\<exists>bucket. (''Tous drapeaux'', bucket) \<in>
        set [(''Tous drapeaux'', [mk_stat ''a'' ''erreur'' 5 None, mk_stat ''c'' ''indice'' 7 (Some [])]),
             (''FR'', [mk_stat ''b'' ''passer'' 6 (Some ''FR'')])] \<and>
      mk_stat ''c'' ''indice'' 7 (Some []) \<in> set bucket)"
proof -
  let ?R = "[mk_stat ''a'' ''erreur'' 5 None, mk_stat ''b'' ''passer'' 6 (Some ''FR''),
             mk_stat ''c'' ''indice'' 7 (Some [])]"
  let ?g = "[(''Tous drapeaux'', [mk_stat ''a'' ''erreur'' 5 None, mk_stat ''c'' ''indice'' 7 (Some [])]),
             (''FR'', [mk_stat ''b'' ''passer'' 6 (Some ''FR'')])]"
  have n: "drapeau (data (mk_stat ''a'' ''erreur'' 5 None)) = None"
    by (simp add: mk_stat_def)
  have g: "getStatsByFlag ?R = Inr ?g" by code_simp
  have e: "drapeau (data (mk_stat ''c'' ''indice'' 7 (Some []))) = Some []"
    by (simp add: mk_stat_def)
  note t = missing_flag_sentinel_bucket[where stat = "mk_stat ''a'' ''erreur'' 5 None"
      and R = ?R and g = ?g]
  from t n have 1: "getCountriesByCount [mk_stat ''a'' ''erreur'' 5 None] =
     Inr [\<lparr>name = ''Tous drapeaux'', count = 1, percentage = ''100.0%''\<rparr>]" by blast
  from t g have "\<forall>s \<in> set ?R. drapeau (data s) = None \<or> drapeau (data s) = Some [] \<longrightarrow>
         (\<exists>bucket. (''Tous drapeaux'', bucket) \<in> set ?g \<and> s \<in> set bucket)" by blast
  then have 2: "\<exists>bucket. (''Tous drapeaux'', bucket) \<in> set ?g \<and>
      mk_stat ''c'' ''indice'' 7 (Some []) \<in> set bucket"
    using e by simp
  from 1 g 2 show ?thesis by blast
qed

text \<open>
  C8. When \<open>fetchData\<close> receives a response whose status is not 200 to 299, the state
  ends with \<open>loading\<close> false and the error message \<open>Erreur HTTP: \<close> followed by the
  status in decimal; \<open>allStats\<close> is unchanged; \<open>handleRefresh\<close> runs \<open>fetchData\<close> (and
  clears \<open>filteredStats\<close>); and the view rendered after the retry, or after the fetch
  of the initial mount, is the error view with that message.
\<close>

theorem failed_fetch_shows_error:
  "\<not> response_ok status \<Longrightarrow>
   fetchData (FetchResponse status body) st =
     st\<lparr>loading := False, error := Some (''Erreur HTTP: '' @ show_nat status)\<rparr> \<and>
   allStats (fetchData (FetchResponse status body) st) = allStats st \<and>
   handleRefresh outcome st = (fetchData outcome st)\<lparr>filteredStats := []\<rparr> \<and>
   render (handleRefresh (FetchResponse status body) st) =
     Inr (ErrorView (''Erreur HTTP: '' @ show_nat status)) \<and>
   render (fetchData (FetchResponse status body) initial_state) =
     Inr (ErrorView (''Erreur HTTP: '' @ show_nat status))"
  by (simp add: fetchData_def handleRefresh_def catch_message_def render_def
      getCountriesByCount_Nil initial_state_def)

theorem failed_fetch_shows_error_witness:
  "\<not> response_ok 500 \<and>
   fetchData (FetchResponse 500 (JsonData [])) example_state =
     example_state\<lparr>loading := False, error := Some ''Erreur HTTP: 500''\<rparr> \<and>
   allStats (fetchData (FetchResponse 500 (JsonData [])) example_state) = example_stats \<and>
   render (handleRefresh (FetchResponse 500 (JsonData [])) example_state) =
     Inr (ErrorView ''Erreur HTTP: 500'')"
proof -
  have n: "\<not> response_ok 500" by (simp add: response_ok_def)
  note t = failed_fetch_shows_error[OF n, where body = "JsonData []" and st = example_state
      and outcome = "FetchResponse 500 (JsonData [])"]
  have m: "''Erreur HTTP: '' @ show_nat 500 = ''Erreur HTTP: 500''"
    by (simp add: show_nat_500)
  from t have 1: "fetchData (FetchResponse 500 (JsonData [])) example_state =
     example_state\<lparr>loading := False, error := Some ''Erreur HTTP: 500''\<rparr>"
    unfolding m by (rule conjunct1)
  from t have "allStats (fetchData (FetchResponse 500 (JsonData [])) example_state) =
     allStats example_state"
    by (rule conjunct1[OF conjunct2])
  then have 2: "allStats (fetchData (FetchResponse 500 (JsonData [])) example_state) =
     example_stats"
    by (simp add: example_state_def)
  from t have 3: "render (handleRefresh (FetchResponse 500 (JsonData [])) example_state) =
     Inr (ErrorView ''Erreur HTTP: 500'')"
    unfolding m by (rule conjunct1[OF conjunct2[OF conjunct2[OF conjunct2]]])
  from n 1 2 3 show ?thesis by (intro conjI)
qed

text \<open>
  C9. After any sequence of criteria edits, searches and resets, a search with criteria
  \<open>uid\<close>, \<open>ty\<close>, \<open>dr\<close> gives the filtered set that the same search gives from the initial
  state with the same \<open>allStats\<close>, namely the filter of \<open>allStats\<close>; and searching twice
  is searching once.
\<close>

theorem search_recomputes_from_allStats:
  "filteredStats (handleSearch ((run_actions st acts)\<lparr>userId := uid, type_st := ty, drapeau_st := dr\<rparr>)) =
     filteredStats (handleSearch (initial_state\<lparr>allStats := allStats st, userId := uid, type_st := ty, drapeau_st := dr\<rparr>)) \<and>
   filteredStats (handleSearch ((run_actions st acts)\<lparr>userId := uid, type_st := ty, drapeau_st := dr\<rparr>)) =
     search_filter uid ty dr (allStats st) \<and>
   handleSearch (handleSearch st) = handleSearch st"
  by (simp add: handleSearch_def allStats_run_actions)

theorem search_recomputes_from_allStats_witness:
  "filteredStats (handleSearch ((run_actions example_state [SetUserId ''6'', Search, SetType ''erreur'', Search, Reset])
      \<lparr>userId := ''5'', type_st := [], drapeau_st := []\<rparr>)) =
   [mk_stat ''a'' ''erreur'' 5 (Some ''FR''), mk_stat ''c'' ''erreur'' 5 (Some ''DE'')]"
proof -
  have "search_filter ''5'' [] [] (allStats example_state) =
     [mk_stat ''a'' ''erreur'' 5 (Some ''FR''), mk_stat ''c'' ''erreur'' 5 (Some ''DE'')]"
    by (simp add: search_filter_eq example_state_def initial_state_def
        example_stats_def mk_stat_def parseInt_5 strict_eq_def)
  note h = this
  note t = search_recomputes_from_allStats[where st = example_state
      and acts = "[SetUserId ''6'', Search, SetType ''erreur'', Search, Reset]"
      and uid = "''5''" and ty = "[]" and dr = "[]"]
  from t have "filteredStats (handleSearch ((run_actions example_state
      [SetUserId ''6'', Search, SetType ''erreur'', Search, Reset])
      \<lparr>userId := ''5'', type_st := [], drapeau_st := []\<rparr>)) =
      search_filter ''5'' [] [] (allStats example_state)"
    by (rule conjunct1[OF conjunct2])
  also note h
  finally show ?thesis .
qed

text \<open>
  C10. Every entry of a ranking that \<open>getCountriesByCount\<close> returns comes from a
  non-empty record set and a non-empty bucket, so its percentage is computed by
  \<open>toFixed(1)\<close> with a positive divisor: digits, a point, exactly one digit and \<open>%\<close>,
  never the guard's \<open>0%\<close>.
\<close>

theorem percentage_one_decimal:
  "getCountriesByCount R = Inr out \<Longrightarrow> e \<in> set out \<Longrightarrow>
   0 < length R \<and> 0 < count e \<and>
   percentage e = toFixed1 (fl (fl (of_nat (count e) / of_nat (length R)) * 100)) @ ''%'' \<and>
   one_decimal_percent (percentage e) \<and> percentage e \<noteq> ''0%''"
proof -
  assume "getCountriesByCount R = Inr out" and e: "e \<in> set out"
  then obtain g where g: "getStatsByFlag R = Inr g"
    and out: "out = array_sort (\<lambda>a b. int (count b) - int (count a))
                (map (\<lambda>(k, b). \<lparr>name = k, count = length b,
                                  percentage = make_percentage (length b) (length R)\<rparr>)
                   (object_entries g))"
    by (auto simp: getCountriesByCount_Inr)
  from e obtain k b where kb: "(k, b) \<in> set g"
    and e_eq: "e = \<lparr>name = k, count = length b,
                    percentage = make_percentage (length b) (length R)\<rparr>"
    by (auto simp: out set_array_sort set_object_entries)
  from g have r: "reduce_group [] R = Inr g" by (simp add: getStatsByFlag_def)
  from reduce_group_nonempty[OF r kb] have b: "0 < length b" by simp
  have "R \<noteq> []" using r kb by (cases R) auto
  then have R: "0 < length R" by simp
  have p: "percentage e = toFixed1 (fl (fl (of_nat (count e) / of_nat (length R)) * 100)) @ ''%''"
    using R by (simp add: e_eq make_percentage_def)
  have f: "one_decimal_percent (percentage e)"
    unfolding p by (rule toFixed1_format)
  have "\<not> one_decimal_percent ''0%''" by (simp add: one_decimal_percent_def)
  with f have "percentage e \<noteq> ''0%''" by auto
  with R b p f show ?thesis by (simp add: e_eq)
qed

theorem percentage_one_decimal_witness:
  "getCountriesByCount example_stats =
     Inr [\<lparr>name = ''FR'', count = 2, percentage = ''66.7%''\<rparr>,
          \<lparr>name = ''DE'', count = 1, percentage = ''33.3%''\<rparr>] \<and>
   \<lparr>name = ''DE'', count = 1, percentage = ''33.3%''\<rparr> \<in>
     set [\<lparr>name = ''FR'', count = 2, percentage = ''66.7%''\<rparr>,
          \<lparr>name = ''DE'', count = 1, percentage = ''33.3%''\<rparr>] \<and>
   0 < length example_stats \<and>
   one_decimal_percent ''33.3%'' \<and> ''33.3%'' \<noteq> ''0%''"
proof -
  have m: "\<lparr>name = ''DE'', count = 1, percentage = ''33.3%''\<rparr> \<in>
     set [\<lparr>name = ''FR'', count = 2, percentage = ''66.7%''\<rparr>,
          \<lparr>name = ''DE'', count = 1 :: nat, percentage = ''33.3%''\<rparr>]" by simp
  from percentage_one_decimal[OF example_ranking m] example_ranking m
  show ?thesis by simp
qed

end
